theory Spec2Isabelle
  imports Main "HOL-Library.AList" "HOL-Library.Signed_Division"
begin

section \<open>Containers of the standard library\<close>

text \<open>
  \<open>std::unordered_map<K, V>\<close> is an association list with at most one entry per key,
  read with \<open>map_of\<close>. Its iteration order is implementation-defined; the list keeps
  the order of insertion, and nothing below depends on it.
  \<open>emplace\<close> inserts only when the key is absent; \<open>um_assign\<close> is a write through
  the reference that \<open>at\<close> returned.
\<close>

type_synonym ('k, 'v) unordered_map = "('k \<times> 'v) list"

definition um_emplace :: "'k \<Rightarrow> 'v \<Rightarrow> ('k, 'v) unordered_map \<Rightarrow> ('k, 'v) unordered_map" where
  "um_emplace k v m = (case map_of m k of None \<Rightarrow> m @ [(k, v)] | Some _ \<Rightarrow> m)"

definition um_assign :: "'k \<Rightarrow> 'v \<Rightarrow> ('k, 'v) unordered_map \<Rightarrow> ('k, 'v) unordered_map" where
  "um_assign k v m = AList.update k v m"

section \<open>The Row Store: class Data\<close>

text \<open>
  \<open>Data<T>\<close> has the single member
  \<open>unordered_map<string, unordered_map<string, T>> data\<close>: asset, then feature, then value.
\<close>

type_synonym 'v Data = "(string, (string, 'v) unordered_map) unordered_map"

definition Data_init :: "'v Data" where
  "Data_init = []"

definition Data_size :: "'v Data \<Rightarrow> nat" where
  "Data_size d = length d"

definition Data_empty :: "'v Data \<Rightarrow> bool" where
  "Data_empty d = (d = [])"

text \<open>\<open>Data::setData\<close>, DataFrame.h lines 519-531.\<close>

definition setData :: "'v Data \<Rightarrow> string \<Rightarrow> string \<Rightarrow> 'v \<Rightarrow> 'v Data" where
  "setData d asset feature val =
     (case map_of d asset of
        None \<Rightarrow> um_emplace asset [(feature, val)] d
      | Some type_map \<Rightarrow>
          (case map_of type_map feature of
             None \<Rightarrow> um_assign asset (um_emplace feature val type_map) d
           | Some _ \<Rightarrow> d))"

text \<open>
  \<open>Data::getData\<close>, lines 536-549. The fall-through value is \<open>T temp {}\<close>, the
  value-initialised \<open>T\<close>, passed as \<open>zero\<close>.
\<close>

definition getData :: "'v \<Rightarrow> 'v Data \<Rightarrow> string \<Rightarrow> string \<Rightarrow> 'v" where
  "getData zero d asset feature =
     (if \<not> Data_empty d then
        (case map_of d asset of
           Some type_map \<Rightarrow>
             (case map_of type_map feature of
                Some v \<Rightarrow> v
              | None \<Rightarrow> zero)
         | None \<Rightarrow> zero)
      else zero)"

text \<open>Whether the store holds an entry for the pair (asset, feature).\<close>

definition holds :: "'v Data \<Rightarrow> string \<Rightarrow> string \<Rightarrow> bool" where
  "holds d asset feature =
     (case map_of d asset of
        None \<Rightarrow> False
      | Some type_map \<Rightarrow> map_of type_map feature \<noteq> None)"

text \<open>A sequence of later \<open>setData\<close> calls, each with its own asset, feature and value.\<close>

fun setData_calls :: "'v Data \<Rightarrow> (string \<times> string \<times> 'v) list \<Rightarrow> 'v Data" where
  "setData_calls d [] = d"
| "setData_calls d ((a, f, v) # cs) = setData_calls (setData d a f v) cs"

section \<open>Outcomes of a call\<close>

text \<open>
  A call returns, throws, ends the process through \<open>std::terminate\<close>, or has undefined
  behaviour (here: an end iterator of the tokenizer is advanced or dereferenced).
  An exception that leaves a function declared \<open>noexcept\<close> calls \<open>std::terminate\<close>;
  every member function of both classes is declared \<open>noexcept\<close>.
\<close>

datatype exn = Std_exception | Out_of_range | Escaped_list_error

datatype 'a outcome = Returns 'a | Throws exn | Terminates | Undefined_behaviour

definition noexcept :: "'a outcome \<Rightarrow> 'a outcome" where
  "noexcept r = (case r of Throws e \<Rightarrow> Terminates | _ \<Rightarrow> r)"

section \<open>Timestamps and the ordered map\<close>

text \<open>
  \<open>bpt::ptime\<close> in its default configuration is a 64-bit tick count, compared as that
  integer. \<open>bpt::ptime()\<close> is the special value not-a-date-time, the count \<open>2^63 - 2\<close>.
\<close>

type_synonym ptime = int

definition not_a_date_time :: ptime where
  "not_a_date_time = 9223372036854775806"

text \<open>
  \<open>std::map<K, V>\<close> is an association list kept in ascending key order; an iterator is
  a position in it. \<open>emplace\<close> puts a new key at its place in the order and leaves the
  map alone when the key is there; \<open>om_assign\<close> is a write through the reference
  that \<open>at\<close> returned; \<open>om_erase\<close> is \<open>erase\<close> of the entry at a position.
\<close>

type_synonym ('k, 'v) ordered_map = "('k \<times> 'v) list"

fun om_emplace :: "'k::linorder \<Rightarrow> 'v \<Rightarrow> ('k, 'v) ordered_map \<Rightarrow> ('k, 'v) ordered_map" where
  "om_emplace k v [] = [(k, v)]"
| "om_emplace k v ((k', v') # m) =
     (if k < k' then (k, v) # (k', v') # m
      else if k = k' then (k', v') # m
      else (k', v') # om_emplace k v m)"

definition om_assign :: "'k \<Rightarrow> 'v \<Rightarrow> ('k, 'v) ordered_map \<Rightarrow> ('k, 'v) ordered_map" where
  "om_assign k v m = AList.update k v m"

definition om_erase :: "nat \<Rightarrow> ('k, 'v) ordered_map \<Rightarrow> ('k, 'v) ordered_map" where
  "om_erase i m = take i m @ drop (Suc i) m"

section \<open>The Table: class DataFrame\<close>

text \<open>
  The three members of \<open>DataFrame<T>\<close>. A date format is kept as its pattern text, the
  argument of \<open>time_input_facet\<close>; an \<open>unordered_set<string>\<close> is a list without
  duplicates.
\<close>

record 'v DataFrame =
  formats :: "string list"
  assetsToFeatures :: "(string, string list) unordered_map"
  data :: "(ptime, 'v Data) ordered_map"

text \<open>
  What the class takes from its libraries and its platform, as parameters:
  \<^item> \<open>tokenize\<close>: all tokens of a row under
    \<open>escaped_list_separator<char>('\\', ',', '"')\<close>, or None when the tokenizer throws
    \<open>escaped_list_error\<close>;
  \<^item> \<open>extract_ptime format text date\<close>: the value of \<open>date\<close> after
    \<open>is.imbue(format); is >> date\<close> on a stream over \<open>text\<close>;
  \<^item> \<open>extract_value\<close>: \<open>T val; ss >> val\<close> on a stream over the text;
  \<^item> \<open>value_init\<close>: the value-initialised \<open>T {}\<close>;
  \<^item> \<open>default_init\<close>: what a default-initialised \<open>T t;\<close> holds: for a class type the
    default-constructed object, for a scalar type such as \<open>double\<close> an indeterminate value;
  \<^item> \<open>open_file\<close>: the lines of the file at a path, or None when it cannot be opened.
\<close>

record 'v library =
  tokenize :: "string \<Rightarrow> string list option"
  extract_ptime :: "string \<Rightarrow> string \<Rightarrow> ptime \<Rightarrow> ptime"
  extract_value :: "string \<Rightarrow> 'v"
  value_init :: 'v
  default_init :: 'v
  open_file :: "string \<Rightarrow> string list option"

text \<open>\<open>invalidCharLambda\<close>, lines 33-35, on an \<open>unsigned char\<close>.\<close>

definition invalidCharLambda :: "char \<Rightarrow> bool" where
  "invalidCharLambda c = (\<not> ((of_char c :: nat) \<ge> 32 \<and> (of_char c :: nat) < 127))"

text \<open>\<open>row.erase(std::remove_if(row.begin(), row.end(), invalidCharLambda), row.end())\<close>.\<close>

definition erase_invalid :: "string \<Rightarrow> string" where
  "erase_invalid row = filter (\<lambda>c. \<not> invalidCharLambda c) row"

text \<open>The member initialisers of lines 215-218 and the default constructor.\<close>

definition default_formats :: "string list" where
  "default_formats = [''%Y-%m-%d'', ''%Y-%m-%d %H:%M'', ''%Y-%m-%d %H:%M:%S'']"

definition DataFrame_init :: "'v DataFrame" where
  "DataFrame_init = \<lparr>formats = default_formats, assetsToFeatures = [], data = []\<rparr>"

definition DataFrame_size :: "'v DataFrame \<Rightarrow> nat" where
  "DataFrame_size df = length (data df)"

definition containsAsset :: "'v DataFrame \<Rightarrow> string \<Rightarrow> bool" where
  "containsAsset df asset = (map_of (assetsToFeatures df) asset \<noteq> None)"

definition containsDate :: "'v DataFrame \<Rightarrow> ptime \<Rightarrow> bool" where
  "containsDate df date = (map_of (data df) date \<noteq> None)"

text \<open>\<open>addDateFormat\<close>, lines 629-641: \<open>emplace_back\<close>, and the loop of the bulk variant.\<close>

definition addDateFormat :: "string \<Rightarrow> 'v DataFrame \<Rightarrow> 'v DataFrame" where
  "addDateFormat format df = df\<lparr>formats := formats df @ [format]\<rparr>"


text \<open>
  Forward iteration from \<open>begin()\<close> to \<open>end()\<close> and reverse iteration from \<open>rbegin()\<close>
  to \<open>rend()\<close>, lines 318-356: the keys met, in the order met.
\<close>

definition forward_timestamps :: "'v DataFrame \<Rightarrow> ptime list" where
  "forward_timestamps df = map fst (data df)"

definition reverse_timestamps :: "'v DataFrame \<Rightarrow> ptime list" where
  "reverse_timestamps df = map fst (rev (data df))"

subsection \<open>Ingestion\<close>

text \<open>
  \<open>DataFrame::insertData\<close>, lines 712-718. The loop runs over the features;
  \<open>rowData.at(i)\<close> throws \<open>std::out_of_range\<close> when the row has no token at \<open>i\<close>,
  and the function is \<open>noexcept\<close>.
\<close>

function insertData_loop ::
  "'v library \<Rightarrow> 'v Data \<Rightarrow> string \<Rightarrow> string list \<Rightarrow> string list \<Rightarrow> nat \<Rightarrow> 'v Data outcome" where
  "insertData_loop L dataObj asset features rowData i =
     (if i < length features then
        (if i < length rowData then
           insertData_loop L
             (setData dataObj asset (features ! i) (extract_value L (rowData ! i)))
             asset features rowData (i + 1)
         else Throws Out_of_range)
      else Returns dataObj)"
  by pat_completeness auto
termination
  by (relation "measure (\<lambda>(L, dataObj, asset, features, rowData, i). length features - i)") auto

declare insertData_loop.simps [simp del]

definition insertData ::
  "'v library \<Rightarrow> 'v Data \<Rightarrow> string \<Rightarrow> string list \<Rightarrow> string list \<Rightarrow> 'v Data outcome" where
  "insertData L dataObj asset features rowData =
     noexcept (insertData_loop L dataObj asset features rowData 0)"

text \<open>
  The format loop of lines 683-689: \<open>date\<close> starts as \<open>bpt::ptime()\<close>, each format
  extracts into it, and the loop breaks at the first value other than \<open>bpt::ptime()\<close>.
\<close>

fun parse_date :: "'v library \<Rightarrow> string list \<Rightarrow> string \<Rightarrow> ptime \<Rightarrow> ptime" where
  "parse_date L [] dateString date = date"
| "parse_date L (format # rest) dateString date =
     (let date' = extract_ptime L format dateString date
      in if date' \<noteq> not_a_date_time then date' else parse_date L rest dateString date')"

text \<open>
  Lines 691-695: the entry for \<open>date\<close> is created with an empty \<open>Data\<close> object when
  \<open>data.find(date)\<close> finds none.
\<close>

definition find_or_create :: "ptime \<Rightarrow> (ptime, 'v Data) ordered_map \<Rightarrow> (ptime, 'v Data) ordered_map" where
  "find_or_create date m = (if map_of m date = None then om_emplace date Data_init m else m)"

text \<open>
  The body of the \<open>while\<close> loop, lines 677-697, on the timestamp map. A row with no
  token has \<open>*(ch.begin())\<close> read the end iterator.
\<close>

definition ingest_row ::
  "'v library \<Rightarrow> string list \<Rightarrow> string \<Rightarrow> string list \<Rightarrow> (ptime, 'v Data) ordered_map \<Rightarrow> string
   \<Rightarrow> (ptime, 'v Data) ordered_map outcome" where
  "ingest_row L fmts asset features m row =
     (case tokenize L (erase_invalid row) of
        None \<Rightarrow> Throws Escaped_list_error
      | Some [] \<Rightarrow> Undefined_behaviour
      | Some (dateString # rowData) \<Rightarrow>
          (let date = parse_date L fmts dateString not_a_date_time;
               m1 = find_or_create date m
           in case map_of m1 date of
                None \<Rightarrow> Throws Out_of_range
              | Some dataObj \<Rightarrow>
                  (case insertData L dataObj asset features rowData of
                     Returns dataObj' \<Rightarrow> Returns (om_assign date dataObj' m1)
                   | Throws e \<Rightarrow> Throws e
                   | Terminates \<Rightarrow> Terminates
                   | Undefined_behaviour \<Rightarrow> Undefined_behaviour)))"

text \<open>The \<open>while (getline(file, row))\<close> loop, line 676.\<close>

fun ingest_rows ::
  "'v library \<Rightarrow> string list \<Rightarrow> string \<Rightarrow> string list \<Rightarrow> (ptime, 'v Data) ordered_map \<Rightarrow> string list
   \<Rightarrow> (ptime, 'v Data) ordered_map outcome" where
  "ingest_rows L fmts asset features m [] = Returns m"
| "ingest_rows L fmts asset features m (row # rows) =
     (case ingest_row L fmts asset features m row of
        Returns m' \<Rightarrow> ingest_rows L fmts asset features m' rows
      | Throws e \<Rightarrow> Throws e
      | Terminates \<Rightarrow> Terminates
      | Undefined_behaviour \<Rightarrow> Undefined_behaviour)"

text \<open>
  \<open>DataFrame::fromCSV(asset, path)\<close>, lines 654-699: the lines written to \<open>std::cout\<close>
  and the outcome. \<open>fromCSV_body\<close> is the function body; \<open>fromCSV\<close> is the call, with
  the \<open>noexcept\<close> of its declaration. The first \<open>getline\<close> leaves \<open>row\<close> empty when the
  file has no line; a header with no token has \<open>++ch.begin()\<close> advance the end iterator.
\<close>

definition fromCSV_body ::
  "'v library \<Rightarrow> 'v DataFrame \<Rightarrow> string \<Rightarrow> string \<Rightarrow> string list \<times> 'v DataFrame outcome" where
  "fromCSV_body L df asset path =
     (if map_of (assetsToFeatures df) asset \<noteq> None then
        ([''Asset: '' @ asset @ '' already exists''], Returns df)
      else
        (case open_file L path of
           None \<Rightarrow> ([''Error opening file: '' @ path], Throws Std_exception)
         | Some file \<Rightarrow>
             ([],
              (let row = (case file of [] \<Rightarrow> [] | l # ls \<Rightarrow> l);
                   rows = (case file of [] \<Rightarrow> [] | l # ls \<Rightarrow> ls)
               in case tokenize L (erase_invalid row) of
                    None \<Rightarrow> Throws Escaped_list_error
                  | Some [] \<Rightarrow> Undefined_behaviour
                  | Some (corner # features) \<Rightarrow>
                      (let df1 = df\<lparr>assetsToFeatures :=
                                      um_emplace asset (remdups features) (assetsToFeatures df)\<rparr>
                       in case ingest_rows L (formats df1) asset features (data df1) rows of
                            Returns m \<Rightarrow> Returns (df1\<lparr>data := m\<rparr>)
                          | Throws e \<Rightarrow> Throws e
                          | Terminates \<Rightarrow> Terminates
                          | Undefined_behaviour \<Rightarrow> Undefined_behaviour)))))"

definition fromCSV ::
  "'v library \<Rightarrow> 'v DataFrame \<Rightarrow> string \<Rightarrow> string \<Rightarrow> string list \<times> 'v DataFrame outcome" where
  "fromCSV L df asset path =
     (case fromCSV_body L df asset path of (out, r) \<Rightarrow> (out, noexcept r))"

subsection \<open>Pruning and lookup\<close>

text \<open>
  \<open>DataFrame::removeEmptyDates\<close>, lines 722-731. The iterator is the position \<open>i\<close>;
  after \<open>data.erase(it++)\<close> it stands on the entry that followed the erased one,
  which is now at the same position.
\<close>

function removeEmptyDates_loop :: "(ptime, 'v Data) ordered_map \<Rightarrow> nat \<Rightarrow> (ptime, 'v Data) ordered_map" where
  "removeEmptyDates_loop m i =
     (if i < length m then
        (if Data_empty (snd (m ! i)) then removeEmptyDates_loop (om_erase i m) i
         else removeEmptyDates_loop m (i + 1))
      else m)"
  by pat_completeness auto
termination
  by (relation "measure (\<lambda>(m, i). length m - i)") (auto simp: om_erase_def)

declare removeEmptyDates_loop.simps [simp del]

definition removeEmptyDates :: "'v DataFrame \<Rightarrow> 'v DataFrame" where
  "removeEmptyDates df = df\<lparr>data := removeEmptyDates_loop (data df) 0\<rparr>"

text \<open>\<open>DataFrame::fillInGaps\<close>, lines 734-738: an empty body.\<close>

definition fillInGaps :: "'v DataFrame \<Rightarrow> 'v DataFrame" where
  "fillInGaps df = df"

text \<open>
  \<open>DataFrame::getData\<close>, lines 742-749. The fall-through value is \<open>T t;\<close>, a
  default-initialised \<open>T\<close>, where \<open>Data::getData\<close> has \<open>T temp {}\<close>.
\<close>

definition DataFrame_getData :: "'v library \<Rightarrow> 'v DataFrame \<Rightarrow> ptime \<Rightarrow> string \<Rightarrow> string \<Rightarrow> 'v" where
  "DataFrame_getData L df date asset feature =
     (case map_of (data df) date of
        Some dataObj \<Rightarrow> getData (value_init L) dataObj asset feature
      | None \<Rightarrow> default_init L)"

subsection \<open>Day of the week\<close>

text \<open>
  \<open>date.date()\<close> is a Gregorian date; \<open>year()\<close>, \<open>month()\<close> and \<open>day()\<close> read it.
  The library accepts the years 1400 to 9999.
\<close>

record greg_date =
  year :: int
  month :: int
  day :: int

text \<open>
  \<open>DataFrame::getDayOfWeek\<close>, lines 768-776, on \<open>int\<close>: \<open>/\<close> and \<open>%\<close> truncate towards
  zero (\<open>sdiv\<close>, \<open>smod\<close>), and no intermediate value leaves the range of a 32-bit
  \<open>int\<close> for a year up to 9999. The table is read at \<open>month - 1\<close>.
\<close>

definition t :: "int list" where
  "t = [0, 3, 2, 5, 0, 3, 5, 1, 4, 6, 2, 4]"

definition getDayOfWeek :: "greg_date \<Rightarrow> int" where
  "getDayOfWeek date =
     (let y = year date;
          m = month date;
          d = day date;
          y = y - (if m < 3 then 1 else 0)
      in (y + y sdiv 4 - y sdiv 100 + y sdiv 400 + t ! nat (m - 1) + d) smod 7)"

text \<open>
  The calendar, in the words of the specification: the day of the week of a date, Sunday
  as 0 to Saturday as 6, found by counting days. A year is a leap year when 4 divides it,
  unless 100 divides it and 400 does not; the days are counted from 1 January 1400, and
  1 January 2000 was a Saturday.
\<close>

definition leap_year :: "int \<Rightarrow> bool" where
  "leap_year y = (y mod 4 = 0 \<and> (y mod 100 \<noteq> 0 \<or> y mod 400 = 0))"

definition year_length :: "int \<Rightarrow> int" where
  "year_length y = (if leap_year y then 366 else 365)"

definition month_length :: "int \<Rightarrow> int \<Rightarrow> int" where
  "month_length y m =
     (if m = 2 then (if leap_year y then 29 else 28)
      else if m = 4 \<or> m = 6 \<or> m = 9 \<or> m = 11 then 30
      else 31)"

definition valid_date :: "greg_date \<Rightarrow> bool" where
  "valid_date date =
     (1400 \<le> year date \<and> year date \<le> 9999 \<and> 1 \<le> month date \<and> month date \<le> 12
      \<and> 1 \<le> day date \<and> day date \<le> month_length (year date) (month date))"

text \<open>The days of the years 1400, ..., 1400 + n - 1.\<close>

primrec days_of_years :: "nat \<Rightarrow> int" where
  "days_of_years 0 = 0"
| "days_of_years (Suc n) = days_of_years n + year_length (1400 + int n)"

text \<open>The days of the months 1, ..., n of year y.\<close>

primrec days_of_months :: "int \<Rightarrow> nat \<Rightarrow> int" where
  "days_of_months y 0 = 0"
| "days_of_months y (Suc n) = days_of_months y n + month_length y (int (Suc n))"

definition day_number :: "greg_date \<Rightarrow> int" where
  "day_number date =
     days_of_years (nat (year date - 1400))
     + days_of_months (year date) (nat (month date - 1))
     + day date"

definition day_of_week :: "greg_date \<Rightarrow> int" where
  "day_of_week date =
     (6 + (day_number date - day_number \<lparr>year = 2000, month = 1, day = 1\<rparr>)) mod 7"

text \<open>The leap years among the years 1, ..., y.\<close>

definition leap_count :: "int \<Rightarrow> int" where
  "leap_count y = y div 4 - y div 100 + y div 400"

section \<open>Tables that a program can build\<close>

text \<open>
  A Table starts from the default constructor and changes through its public
  operations; an ingestion that does not return leaves no Table behind. The library may
  differ from call to call (the files change).
\<close>

inductive reachable :: "'v DataFrame \<Rightarrow> bool" where
  reach_init: "reachable DataFrame_init"
| reach_addDateFormat: "reachable df \<Longrightarrow> reachable (addDateFormat format df)"
| reach_fromCSV:
    "reachable df \<Longrightarrow> fromCSV L df asset path = (out, Returns df') \<Longrightarrow> reachable df'"
| reach_removeEmptyDates: "reachable df \<Longrightarrow> reachable (removeEmptyDates df)"
| reach_fillInGaps: "reachable df \<Longrightarrow> reachable (fillInGaps df)"

text \<open>The \<open>setData\<close> calls of one row: feature \<open>i\<close> with the value of token \<open>i\<close>.\<close>

definition row_calls :: "'v library \<Rightarrow> string \<Rightarrow> string list \<Rightarrow> string list \<Rightarrow> (string \<times> string \<times> 'v) list" where
  "row_calls L asset features rowData =
     map (\<lambda>(feature, token). (asset, feature, extract_value L token)) (zip features rowData)"

section \<open>A sample library\<close>

text \<open>
  A library instance for the concrete cases below, with \<open>T = int\<close>. Its rows have no
  quote and no escape character, so the tokenizer splits at every comma (and gives no
  token for an empty row); its stream extraction knows the date texts and the numbers
  of the sample files and fails on every other text, leaving the target as it was
  (a number: zero).
\<close>

fun split_commas :: "string \<Rightarrow> string \<Rightarrow> string list" where
  "split_commas tok [] = [tok]"
| "split_commas tok (c # cs) =
     (if c = CHR '','' then tok # split_commas [] cs else split_commas (tok @ [c]) cs)"

definition sample_files :: "(string \<times> string list) list" where
  "sample_files =
     [(''Testing1.csv'', [''Date,Open,Close'', ''2020-01-02,11,12'', ''2020-01-01,10,13'']),
      (''Testing2.csv'', [''Date,Open'', ''2020-01-03,14'']),
      (''Short.csv'', [''Date,Open,Close'', ''2020-01-01,10'']),
      (''Long.csv'', [''Date,Open'', ''2020-01-01,10,13,14'']),
      (''Undated.csv'', [''Date,Open'', ''yesterday,10'', ''tomorrow,11'']),
      (''UndatedShort.csv'', [''Date,Open'', ''yesterday''])]"

definition sample_library :: "int library" where
  "sample_library =
     \<lparr>tokenize = (\<lambda>row. if row = [] then Some [] else Some (split_commas [] row)),
      extract_ptime = (\<lambda>format text date.
         if format = ''%Y-%m-%d'' then
           (case map_of [(''2020-01-01'', 18262), (''2020-01-02'', 18263),
                         (''2020-01-03'', 18264)] text of
              Some ticks \<Rightarrow> ticks
            | None \<Rightarrow> date)
         else date),
      extract_value = (\<lambda>text.
         case map_of [(''10'', 10), (''11'', 11), (''12'', 12), (''13'', 13), (''14'', 14)] text of
           Some v \<Rightarrow> v
         | None \<Rightarrow> 0),
      value_init = 0,
      default_init = 0,
      open_file = map_of sample_files\<rparr>"

text \<open>A Table with one timestamp whose Row Store is empty and one whose Row Store is not.\<close>

definition sample_table :: "int DataFrame" where
  "sample_table =
     \<lparr>formats = default_formats,
      assetsToFeatures = [(''A'', [''Open''])],
      data = [(18262, Data_init), (18263, [(''A'', [(''Open'', 11)])])]\<rparr>"

text \<open>The Table after the first sample file is ingested as asset A.\<close>

definition sample_ingested :: "int DataFrame" where
  "sample_ingested =
     \<lparr>formats = default_formats,
      assetsToFeatures = [(''A'', [''Open'', ''Close''])],
      data = [(18262, [(''A'', [(''Open'', 10), (''Close'', 13)])]),
              (18263, [(''A'', [(''Open'', 11), (''Close'', 12)])])]\<rparr>"

section \<open>Row Store: first write wins\<close>

lemma map_of_um_emplace:
  "map_of (um_emplace k v m) = (case map_of m k of None \<Rightarrow> (map_of m)(k \<mapsto> v) | Some _ \<Rightarrow> map_of m)"
  by (auto simp: um_emplace_def fun_eq_iff map_add_def split: option.splits)

lemma map_of_um_assign: "map_of (um_assign k v m) = (map_of m)(k \<mapsto> v)"
  by (simp add: um_assign_def update_conv')

lemma um_emplace_nonempty: "um_emplace k v m \<noteq> []"
  by (cases m) (auto simp: um_emplace_def split: option.splits)

lemma um_assign_nonempty: "um_assign k v m \<noteq> []"
  by (cases m) (auto simp: um_assign_def)

lemma getData_fresh:
  assumes "\<not> holds d a f"
  shows "getData z (setData d a f v) a f = v"
proof (cases "map_of d a")
  case None
  then show ?thesis
    by (simp add: getData_def setData_def Data_empty_def map_of_um_emplace um_emplace_nonempty)
next
  case (Some tm)
  with assms have "map_of tm f = None" by (simp add: holds_def)
  with Some show ?thesis
    by (simp add: getData_def setData_def Data_empty_def map_of_um_emplace map_of_um_assign
        um_assign_nonempty)
qed

lemma holds_setData_same: "holds (setData d a f v) a f"
  by (auto simp: setData_def holds_def map_of_um_emplace map_of_um_assign split: option.splits)

lemma holds_nonempty: "holds d a f \<Longrightarrow> d \<noteq> []"
  by (auto simp: holds_def)

lemma setData_keeps:
  assumes "holds d a f"
  shows "holds (setData d a' f' v') a f \<and> getData z (setData d a' f' v') a f = getData z d a f"
proof -
  from assms obtain tm w where tm: "map_of d a = Some tm" and w: "map_of tm f = Some w"
    by (auto simp: holds_def split: option.splits)
  have ne: "d \<noteq> []" using assms by (rule holds_nonempty)
  show ?thesis
  proof (cases "map_of d a'")
    case None
    then have "a' \<noteq> a" using tm by auto
    with None tm w ne show ?thesis
      by (auto simp: setData_def holds_def getData_def Data_empty_def map_of_um_emplace
          um_emplace_def)
  next
    case (Some tm')
    show ?thesis
    proof (cases "map_of tm' f'")
      case None
      have ne': "um_assign a' (um_emplace f' v' tm') d \<noteq> []"
        using ne by (cases d) (auto simp: um_assign_def)
      show ?thesis
      proof (cases "a' = a")
        case True
        with Some tm have "tm' = tm" by simp
        with None w have "f' \<noteq> f" by auto
        with True Some None tm w \<open>tm' = tm\<close> ne ne' show ?thesis
          by (simp add: setData_def holds_def getData_def Data_empty_def map_of_um_emplace
              map_of_um_assign)
      next
        case False
        with Some None tm w ne ne' show ?thesis
          by (simp add: setData_def holds_def getData_def Data_empty_def map_of_um_assign)
      qed
    next
      case (Some u)
      with \<open>map_of d a' = Some tm'\<close> assms show ?thesis
        by (simp add: setData_def)
    qed
  qed
qed

lemma setData_calls_keep:
  "holds d a f \<Longrightarrow>
   holds (setData_calls d cs) a f \<and> getData z (setData_calls d cs) a f = getData z d a f"
proof (induction cs arbitrary: d)
  case Nil
  then show ?case by simp
next
  case (Cons c cs)
  obtain a' f' v' where c: "c = (a', f', v')" by (cases c)
  from setData_keeps [OF Cons.prems, of a' f' v' z]
  have h: "holds (setData d a' f' v') a f"
    and g: "getData z (setData d a' f' v') a f = getData z d a f" by simp_all
  from Cons.IH [OF h] g c show ?case by simp
qed

text \<open>
  C1. When the pair (A, F) is absent, \<open>setData(A, F, V)\<close> stores V, so that
  \<open>getData(A, F)\<close> is V; a following \<open>setData(A, F, V2)\<close> leaves \<open>getData(A, F)\<close> at V;
  and after any sequence of later \<open>setData\<close> calls, on any assets and features,
  \<open>getData(A, F)\<close> is still V: the first write wins.
\<close>

theorem setData_first_write_wins:
  assumes "\<not> holds d A F"
  shows "getData z (setData d A F V) A F = V
       \<and> getData z (setData (setData d A F V) A F V2) A F = V
       \<and> getData z (setData_calls (setData d A F V) cs) A F = V"
proof -
  have first: "getData z (setData d A F V) A F = V"
    using assms by (rule getData_fresh)
  have h: "holds (setData d A F V) A F" by (rule holds_setData_same)
  from setData_keeps [OF h, of A F V2 z] first
  have second: "getData z (setData (setData d A F V) A F V2) A F = V" by simp
  from setData_calls_keep [OF h, of cs z] first
  have later: "getData z (setData_calls (setData d A F V) cs) A F = V" by simp
  from first second later show ?thesis by simp
qed

theorem setData_first_write_wins_witness:
  "\<not> holds (Data_init :: int Data) ''EUR_USD'' ''Open''
   \<and> getData 0 (setData (Data_init :: int Data) ''EUR_USD'' ''Open'' 7) ''EUR_USD'' ''Open'' = 7
   \<and> getData 0 (setData (setData (Data_init :: int Data) ''EUR_USD'' ''Open'' 7)
        ''EUR_USD'' ''Open'' 9) ''EUR_USD'' ''Open'' = 7
   \<and> getData 0 (setData_calls (setData (Data_init :: int Data) ''EUR_USD'' ''Open'' 7)
        [(''EUR_USD'', ''Close'', 3), (''EUR_USD'', ''Open'', 9), (''CSV2'', ''Open'', 4)])
        ''EUR_USD'' ''Open'' = 7"
proof -
  have h: "\<not> holds (Data_init :: int Data) ''EUR_USD'' ''Open''"
    by (simp add: holds_def Data_init_def)
  from h setData_first_write_wins [OF h]
  show ?thesis by blast
qed

section \<open>Pruning\<close>

lemma removeEmptyDates_loop_filter:
  "removeEmptyDates_loop m i = take i m @ filter (\<lambda>e. \<not> Data_empty (snd e)) (drop i m)"
proof (induction m i rule: removeEmptyDates_loop.induct)
  case (1 m i)
  show ?case
  proof (cases "i < length m")
    case False
    then show ?thesis by (subst removeEmptyDates_loop.simps) simp
  next
    case lt: True
    then have split: "drop i m = m ! i # drop (Suc i) m"
      by (simp add: Cons_nth_drop_Suc)
    show ?thesis
    proof (cases "Data_empty (snd (m ! i))")
      case True
      have "removeEmptyDates_loop m i = removeEmptyDates_loop (om_erase i m) i"
        using lt True by (subst removeEmptyDates_loop.simps) simp
      also have "\<dots> = take i (om_erase i m)
                  @ filter (\<lambda>e. \<not> Data_empty (snd e)) (drop i (om_erase i m))"
        using lt True by (rule "1.IH"(1))
      also have "take i (om_erase i m) = take i m"
        using lt by (simp add: om_erase_def)
      also have "drop i (om_erase i m) = drop (Suc i) m"
        using lt by (simp add: om_erase_def)
      finally show ?thesis using True by (simp add: split)
    next
      case False
      have "removeEmptyDates_loop m i = removeEmptyDates_loop m (i + 1)"
        using lt False by (subst removeEmptyDates_loop.simps) simp
      also have "\<dots> = take (i + 1) m
                  @ filter (\<lambda>e. \<not> Data_empty (snd e)) (drop (i + 1) m)"
        using lt False by (rule "1.IH"(2))
      finally show ?thesis using lt False by (simp add: split take_Suc_conv_app_nth)
    qed
  qed
qed

lemma data_removeEmptyDates:
  "data (removeEmptyDates df) = filter (\<lambda>e. \<not> Data_empty (snd e)) (data df)"
  by (simp add: removeEmptyDates_def removeEmptyDates_loop_filter)

lemma sorted_keys_filter:
  "sorted_wrt (<) (map fst m) \<Longrightarrow> sorted_wrt (<) (map fst (filter P m))"
  by (induction m) auto

lemma map_of_filter_sorted:
  fixes m :: "('k::linorder \<times> 'v) list"
  assumes "sorted_wrt (<) (map fst m)"
  shows "map_of (filter (\<lambda>e. P (snd e)) m) k
         = (case map_of m k of None \<Rightarrow> None | Some v \<Rightarrow> if P v then Some v else None)"
  using assms
proof (induction m)
  case Nil
  then show ?case by simp
next
  case (Cons e m)
  obtain k' v' where e: "e = (k', v')" by (cases e)
  from Cons.prems e have later: "\<forall>x \<in> set m. k' < fst x" and sm: "sorted_wrt (<) (map fst m)"
    by auto
  have absent: "map_of m k' = None"
  proof (rule ccontr)
    assume "map_of m k' \<noteq> None"
    then obtain w where "map_of m k' = Some w" by auto
    then have "(k', w) \<in> set m" by (rule map_of_SomeD)
    with later show False by force
  qed
  show ?case
  proof (cases "k = k'")
    case True
    have "map_of (filter (\<lambda>e. P (snd e)) m) k' = None"
      using Cons.IH [OF sm] absent True by simp
    with True e show ?thesis by simp
  next
    case False
    with e Cons.IH [OF sm] show ?thesis by simp
  qed
qed

text \<open>
  C8. \<open>removeEmptyDates\<close> removes exactly the entries whose Row Store is empty: the
  entries that stay are those with a Row Store that is not empty, with their contents and
  in their order; the formats and the asset index stay; ascending order of the timestamps
  is kept, and under it a lookup finds a timestamp afterwards exactly when its Row Store
  was not empty, with the same Row Store. For a Table of one timestamp with an empty Row
  Store and one with a Row Store that is not empty, the size afterwards is 1 and the
  timestamp that stays is the second.
\<close>

theorem removeEmptyDates_prunes:
  "data (removeEmptyDates df) = filter (\<lambda>e. \<not> Data_empty (snd e)) (data df)
   \<and> formats (removeEmptyDates df) = formats df
   \<and> assetsToFeatures (removeEmptyDates df) = assetsToFeatures df
   \<and> (sorted_wrt (<) (forward_timestamps df) \<longrightarrow>
        sorted_wrt (<) (forward_timestamps (removeEmptyDates df))
        \<and> (\<forall>ts. map_of (data (removeEmptyDates df)) ts
                  = (case map_of (data df) ts of
                       None \<Rightarrow> None
                     | Some d \<Rightarrow> if Data_empty d then None else Some d)))
   \<and> (\<not> Data_empty d \<and> (data df = [(t1, Data_init), (t2, d)] \<or> data df = [(t2, d), (t1, Data_init)])
        \<longrightarrow> DataFrame_size (removeEmptyDates df) = 1
            \<and> forward_timestamps (removeEmptyDates df) = [t2]
            \<and> map_of (data (removeEmptyDates df)) t2 = Some d)"
proof -
  have a: "data (removeEmptyDates df) = filter (\<lambda>e. \<not> Data_empty (snd e)) (data df)"
    by (rule data_removeEmptyDates)
  have b: "formats (removeEmptyDates df) = formats df
           \<and> assetsToFeatures (removeEmptyDates df) = assetsToFeatures df"
    by (simp add: removeEmptyDates_def)
  have c: "sorted_wrt (<) (forward_timestamps (removeEmptyDates df))"
    if "sorted_wrt (<) (forward_timestamps df)"
    using that unfolding forward_timestamps_def a by (rule sorted_keys_filter)
  have d: "map_of (data (removeEmptyDates df)) ts
           = (case map_of (data df) ts of
                None \<Rightarrow> None
              | Some d \<Rightarrow> if Data_empty d then None else Some d)"
    if "sorted_wrt (<) (forward_timestamps df)" for ts
    using map_of_filter_sorted [of "data df" "\<lambda>d. \<not> Data_empty d" ts] that
    by (auto simp: a forward_timestamps_def split: option.splits)
  have e: "DataFrame_size (removeEmptyDates df) = 1
            \<and> forward_timestamps (removeEmptyDates df) = [t2]
            \<and> map_of (data (removeEmptyDates df)) t2 = Some d"
    if "\<not> Data_empty d"
      and "data df = [(t1, Data_init), (t2, d)] \<or> data df = [(t2, d), (t1, Data_init)]"
    using that by (auto simp: a DataFrame_size_def forward_timestamps_def Data_empty_def Data_init_def)
  from a b c d e show ?thesis by blast
qed

theorem removeEmptyDates_prunes_witness:
  "sorted_wrt (<) (forward_timestamps sample_table)
   \<and> \<not> Data_empty [(''A'', [(''Open'', 11::int)])]
   \<and> data sample_table = [(18262, Data_init), (18263, [(''A'', [(''Open'', 11)])])]
   \<and> DataFrame_size (removeEmptyDates sample_table) = 1
   \<and> forward_timestamps (removeEmptyDates sample_table) = [18263]
   \<and> sorted_wrt (<) (forward_timestamps (removeEmptyDates sample_table))
   \<and> map_of (data (removeEmptyDates sample_table)) 18263 = Some [(''A'', [(''Open'', 11)])]
   \<and> map_of (data (removeEmptyDates sample_table)) 18262 = None"
proof -
  have s: "sorted_wrt (<) (forward_timestamps sample_table)"
    by (simp add: sample_table_def forward_timestamps_def)
  have n: "\<not> Data_empty [(''A'', [(''Open'', 11::int)])]"
    by (simp add: Data_empty_def)
  have d: "data sample_table = [(18262, Data_init), (18263, [(''A'', [(''Open'', 11)])])]"
    by (simp add: sample_table_def)
  from removeEmptyDates_prunes [of sample_table "[(''A'', [(''Open'', 11)])]" 18262 18263] s n d
  show ?thesis
    by (simp add: Data_empty_def Data_init_def forward_timestamps_def)
qed

text \<open>
  C10. After one \<open>removeEmptyDates\<close> no timestamp has an empty Row Store, and a second
  call changes nothing.
\<close>

theorem removeEmptyDates_idempotent:
  "removeEmptyDates (removeEmptyDates df) = removeEmptyDates df
   \<and> list_all (\<lambda>e. \<not> Data_empty (snd e)) (data (removeEmptyDates df))"
proof -
  have "data (removeEmptyDates (removeEmptyDates df)) = data (removeEmptyDates df)"
    by (simp add: data_removeEmptyDates)
  then have "removeEmptyDates (removeEmptyDates df) = removeEmptyDates df"
    by (simp add: removeEmptyDates_def)
  moreover have "list_all (\<lambda>e. \<not> Data_empty (snd e)) (data (removeEmptyDates df))"
    by (simp add: data_removeEmptyDates list_all_iff)
  ultimately show ?thesis by simp
qed

theorem removeEmptyDates_idempotent_witness:
  "removeEmptyDates (removeEmptyDates sample_table) = removeEmptyDates sample_table
   \<and> data (removeEmptyDates sample_table) = [(18263, [(''A'', [(''Open'', 11)])])]"
proof -
  have "data (removeEmptyDates sample_table) = [(18263, [(''A'', [(''Open'', 11)])])]"
    by (simp add: data_removeEmptyDates sample_table_def Data_empty_def Data_init_def)
  with removeEmptyDates_idempotent [of sample_table] show ?thesis by simp
qed

section \<open>Ingestion of one row\<close>

lemma row_calls_drop:
  assumes "i < length features" "i < length rowData"
  shows "row_calls L asset (drop i features) (drop i rowData)
         = (asset, features ! i, extract_value L (rowData ! i))
           # row_calls L asset (drop (Suc i) features) (drop (Suc i) rowData)"
proof -
  have "drop i features = features ! i # drop (Suc i) features"
    using assms(1) by (simp add: Cons_nth_drop_Suc)
  moreover have "drop i rowData = rowData ! i # drop (Suc i) rowData"
    using assms(2) by (simp add: Cons_nth_drop_Suc)
  ultimately show ?thesis by (simp add: row_calls_def)
qed

lemma insertData_loop_enough:
  "length features \<le> length rowData \<Longrightarrow>
   insertData_loop L dataObj asset features rowData i
   = Returns (setData_calls dataObj (row_calls L asset (drop i features) (drop i rowData)))"
proof (induction L dataObj asset features rowData i rule: insertData_loop.induct)
  case (1 L dataObj asset features rowData i)
  show ?case
  proof (cases "i < length features")
    case False
    then show ?thesis
      by (subst insertData_loop.simps) (simp add: row_calls_def)
  next
    case True
    with "1.prems" have r: "i < length rowData" by simp
    have "insertData_loop L dataObj asset features rowData i
          = insertData_loop L
              (setData dataObj asset (features ! i) (extract_value L (rowData ! i)))
              asset features rowData (i + 1)"
      using True r by (subst insertData_loop.simps) simp
    also have "\<dots> = Returns (setData_calls
                 (setData dataObj asset (features ! i) (extract_value L (rowData ! i)))
                 (row_calls L asset (drop (i + 1) features) (drop (i + 1) rowData)))"
      using True r "1.prems" by (rule "1.IH")
    finally show ?thesis
      using row_calls_drop [OF True r, of L asset] by simp
  qed
qed

lemma insertData_loop_short:
  "length rowData < length features \<Longrightarrow> i \<le> length rowData \<Longrightarrow>
   insertData_loop L dataObj asset features rowData i = Throws Out_of_range"
proof (induction L dataObj asset features rowData i rule: insertData_loop.induct)
  case (1 L dataObj asset features rowData i)
  from "1.prems" have f: "i < length features" by simp
  show ?case
  proof (cases "i < length rowData")
    case False
    with f show ?thesis by (subst insertData_loop.simps) simp
  next
    case True
    have "insertData_loop L dataObj asset features rowData i
          = insertData_loop L
              (setData dataObj asset (features ! i) (extract_value L (rowData ! i)))
              asset features rowData (i + 1)"
      using True f by (subst insertData_loop.simps) simp
    also have "\<dots> = Throws Out_of_range"
      using f True "1.prems"(1) by (rule "1.IH") (use True in simp)
    finally show ?thesis .
  qed
qed

lemma insertData_enough:
  "length features \<le> length rowData \<Longrightarrow>
   insertData L dataObj asset features rowData
   = Returns (setData_calls dataObj (row_calls L asset features rowData))"
  by (simp add: insertData_def insertData_loop_enough noexcept_def)

lemma insertData_short:
  "length rowData < length features \<Longrightarrow>
   insertData L dataObj asset features rowData = Terminates"
  by (simp add: insertData_def insertData_loop_short noexcept_def)

lemma row_calls_take:
  "row_calls L asset features rowData
   = row_calls L asset features (take (length features) rowData)"
proof -
  have "zip features rowData = take (length features) (zip features rowData)"
    by simp
  also have "\<dots> = zip features (take (length features) rowData)"
    by (simp add: take_zip)
  finally show ?thesis by (simp add: row_calls_def)
qed

section \<open>The ordered map\<close>

lemma keys_om_emplace:
  "set (map fst (om_emplace k v m)) = insert k (set (map fst m))"
  by (induction k v m rule: om_emplace.induct) auto

lemma sorted_om_emplace:
  "sorted_wrt (<) (map fst m) \<Longrightarrow> sorted_wrt (<) (map fst (om_emplace k v m))"
proof (induction m)
  case Nil
  then show ?case by simp
next
  case (Cons e m)
  obtain k' v' where e: "e = (k', v')" by (cases e)
  from Cons.prems e have later: "\<forall>x \<in> set m. k' < fst x" and sm: "sorted_wrt (<) (map fst m)"
    by auto
  show ?case
  proof (cases "k < k'")
    case True
    with later have "\<forall>x \<in> set m. k < fst x" by auto
    with True e Cons.prems show ?thesis by auto
  next
    case False
    show ?thesis
    proof (cases "k = k'")
      case True
      with e Cons.prems show ?thesis by simp
    next
      case ne: False
      with False have gt: "k' < k" by simp
      have "k' < fst x" if "x \<in> set (om_emplace k v m)" for x
      proof -
        from that have "fst x \<in> set (map fst (om_emplace k v m))" by simp
        then have "fst x \<in> insert k (set (map fst m))" by (simp only: keys_om_emplace)
        with later gt show ?thesis by auto
      qed
      then have "\<forall>x \<in> set (om_emplace k v m). k' < fst x" by blast
      with e False ne Cons.IH [OF sm] show ?thesis by simp
    qed
  qed
qed

lemma map_of_om_emplace:
  "map_of m k = None \<Longrightarrow> map_of (om_emplace k v m) = (map_of m)(k \<mapsto> v)"
  by (induction m) (auto simp: fun_eq_iff)

lemma keys_om_assign:
  "map_of m k \<noteq> None \<Longrightarrow> map fst (om_assign k v m) = map fst m"
  by (simp add: om_assign_def update_keys map_of_eq_None_iff)


section \<open>Ingestion keeps the timestamps in order\<close>

lemma find_or_create_finds:
  "map_of (find_or_create date m) date
   = Some (case map_of m date of None \<Rightarrow> Data_init | Some dataObj \<Rightarrow> dataObj)"
  by (auto simp: find_or_create_def map_of_om_emplace)


lemma sorted_find_or_create:
  "sorted_wrt (<) (map fst m) \<Longrightarrow> sorted_wrt (<) (map fst (find_or_create date m))"
  by (simp add: find_or_create_def sorted_om_emplace)

text \<open>A row that is ingested: its tokens, its Row Store before and after.\<close>

lemma ingest_row_Returns:
  assumes "ingest_row L fmts asset features m row = Returns m'"
  obtains dateString rowData dataObj dataObj' where
    "tokenize L (erase_invalid row) = Some (dateString # rowData)"
    "map_of (find_or_create (parse_date L fmts dateString not_a_date_time) m)
       (parse_date L fmts dateString not_a_date_time) = Some dataObj"
    "insertData L dataObj asset features rowData = Returns dataObj'"
    "m' = om_assign (parse_date L fmts dateString not_a_date_time) dataObj'
            (find_or_create (parse_date L fmts dateString not_a_date_time) m)"
proof (cases "tokenize L (erase_invalid row)")
  case None
  with assms show ?thesis by (simp add: ingest_row_def)
next
  case (Some tokens)
  show ?thesis
  proof (cases tokens)
    case Nil
    with Some assms show ?thesis by (simp add: ingest_row_def)
  next
    case (Cons dateString rowData)
    define date where "date = parse_date L fmts dateString not_a_date_time"
    show ?thesis
    proof (cases "map_of (find_or_create date m) date")
      case None
      with Some Cons assms show ?thesis by (simp add: ingest_row_def date_def Let_def)
    next
      case found: (Some dataObj)
      show ?thesis
      proof (cases "insertData L dataObj asset features rowData")
        case (Returns dataObj')
        with Some Cons found assms
        have "m' = om_assign date dataObj' (find_or_create date m)"
          by (simp add: ingest_row_def date_def Let_def)
        with Some Cons found Returns that show ?thesis by (simp add: date_def)
      qed (use Some Cons found assms in \<open>simp_all add: ingest_row_def date_def Let_def\<close>)
    qed
  qed
qed

lemma ingest_row_sorted:
  assumes "ingest_row L fmts asset features m row = Returns m'"
    and "sorted_wrt (<) (map fst m)"
  shows "sorted_wrt (<) (map fst m')"
proof -
  from assms(1) obtain dateString rowData dataObj dataObj' where
    at: "map_of (find_or_create (parse_date L fmts dateString not_a_date_time) m)
           (parse_date L fmts dateString not_a_date_time) = Some dataObj"
    and m': "m' = om_assign (parse_date L fmts dateString not_a_date_time) dataObj'
                   (find_or_create (parse_date L fmts dateString not_a_date_time) m)"
    by (rule ingest_row_Returns)
  from at have "map fst m'
        = map fst (find_or_create (parse_date L fmts dateString not_a_date_time) m)"
    unfolding m' by (intro keys_om_assign) simp
  with sorted_find_or_create [OF assms(2)] show ?thesis by simp
qed

lemma ingest_rows_sorted:
  "ingest_rows L fmts asset features m rows = Returns m' \<Longrightarrow>
   sorted_wrt (<) (map fst m) \<Longrightarrow> sorted_wrt (<) (map fst m')"
proof (induction rows arbitrary: m)
  case Nil
  then show ?case by simp
next
  case (Cons row rows)
  from Cons.prems(1) obtain m1 where
    r: "ingest_row L fmts asset features m row = Returns m1"
    and rs: "ingest_rows L fmts asset features m1 rows = Returns m'"
    by (auto split: outcome.splits)
  from ingest_row_sorted [OF r Cons.prems(2)] have "sorted_wrt (<) (map fst m1)" .
  with rs show ?case by (rule Cons.IH)
qed

lemma fromCSV_Returns:
  assumes "fromCSV L df asset path = (out, Returns df')"
  shows "fromCSV_body L df asset path = (out, Returns df')"
  using assms by (auto simp: fromCSV_def noexcept_def split: prod.splits outcome.splits)

lemma fromCSV_body_cases:
  assumes "fromCSV_body L df asset path = (out, Returns df')"
  shows "(map_of (assetsToFeatures df) asset \<noteq> None \<and> df' = df
          \<and> out = [''Asset: '' @ asset @ '' already exists''])
       \<or> (map_of (assetsToFeatures df) asset = None
          \<and> (\<exists>file corner features m.
                open_file L path = Some file
              \<and> tokenize L (erase_invalid (case file of [] \<Rightarrow> [] | l # ls \<Rightarrow> l))
                  = Some (corner # features)
              \<and> ingest_rows L (formats df) asset features (data df)
                   (case file of [] \<Rightarrow> [] | l # ls \<Rightarrow> ls) = Returns m
              \<and> df' = df\<lparr>assetsToFeatures :=
                           um_emplace asset (remdups features) (assetsToFeatures df),
                         data := m\<rparr>
              \<and> out = []))"
  using assms
  by (auto simp: fromCSV_body_def Let_def split: if_splits option.splits list.splits outcome.splits)

lemma fromCSV_sorted:
  assumes "fromCSV L df asset path = (out, Returns df')"
    and "sorted_wrt (<) (map fst (data df))"
  shows "sorted_wrt (<) (map fst (data df'))"
  using fromCSV_body_cases [OF fromCSV_Returns [OF assms(1)]] assms(2)
  by (auto dest: ingest_rows_sorted)

lemma fromCSV_registers:
  assumes "fromCSV L df asset path = (out, Returns df')"
  shows "map_of (assetsToFeatures df') asset \<noteq> None"
  using fromCSV_body_cases [OF fromCSV_Returns [OF assms(1)]]
  by (auto simp: map_of_um_emplace)

lemma reachable_sorted: "reachable df \<Longrightarrow> sorted_wrt (<) (map fst (data df))"
proof (induction rule: reachable.induct)
  case reach_init
  then show ?case by (simp add: DataFrame_init_def)
next
  case (reach_addDateFormat df format)
  then show ?case by (simp add: addDateFormat_def)
next
  case (reach_fromCSV df L asset path out df')
  from reach_fromCSV.hyps(2) reach_fromCSV.IH show ?case by (rule fromCSV_sorted)
next
  case (reach_removeEmptyDates df)
  then show ?case by (simp add: data_removeEmptyDates sorted_keys_filter)
next
  case (reach_fillInGaps df)
  then show ?case by (simp add: fillInGaps_def)
qed

section \<open>Iteration order\<close>

lemma sample_Testing1:
  "fromCSV sample_library DataFrame_init ''A'' ''Testing1.csv'' = ([], Returns sample_ingested)"
  by code_simp

lemma sample_reachable: "reachable sample_ingested"
  using reach_init sample_Testing1 by (rule reach_fromCSV)

text \<open>
  C2. For every Table a program can build, in whatever order the timestamps were
  inserted: forward iteration meets the timestamps in strictly increasing order, reverse
  iteration meets them in strictly decreasing order, as the forward order reversed, and
  both meet the same set of timestamps.
\<close>

theorem iteration_ordered:
  assumes "reachable df"
  shows "sorted_wrt (<) (forward_timestamps df)
       \<and> sorted_wrt (>) (reverse_timestamps df)
       \<and> reverse_timestamps df = rev (forward_timestamps df)
       \<and> set (forward_timestamps df) = set (reverse_timestamps df)"
proof -
  have f: "sorted_wrt (<) (forward_timestamps df)"
    using assms unfolding forward_timestamps_def by (rule reachable_sorted)
  have r: "reverse_timestamps df = rev (forward_timestamps df)"
    by (simp add: reverse_timestamps_def forward_timestamps_def rev_map)
  have "sorted_wrt (>) (rev (forward_timestamps df))"
    using f by (simp add: sorted_wrt_rev)
  with f r show ?thesis by simp
qed

theorem iteration_ordered_witness:
  "fromCSV sample_library DataFrame_init ''A'' ''Testing1.csv'' = ([], Returns sample_ingested)
   \<and> reachable sample_ingested
   \<and> forward_timestamps sample_ingested = [18262, 18263]
   \<and> reverse_timestamps sample_ingested = [18263, 18262]
   \<and> sorted_wrt (<) (forward_timestamps sample_ingested)
   \<and> sorted_wrt (>) (reverse_timestamps sample_ingested)"
proof -
  have "forward_timestamps sample_ingested = [18262, 18263]"
    by (simp add: forward_timestamps_def sample_ingested_def)
  moreover have "reverse_timestamps sample_ingested = [18263, 18262]"
    by (simp add: reverse_timestamps_def sample_ingested_def)
  ultimately show ?thesis
    using sample_Testing1 sample_reachable iteration_ordered [OF sample_reachable] by simp
qed

section \<open>The duplicate asset\<close>

lemma fromCSV_duplicate:
  assumes "containsAsset df asset"
  shows "fromCSV L df asset path = ([''Asset: '' @ asset @ '' already exists''], Returns df)"
  using assms by (simp add: fromCSV_def fromCSV_body_def containsAsset_def noexcept_def)

text \<open>
  C6. When the asset is in the asset index, \<open>fromCSV(asset, path)\<close> writes the
  diagnostic and returns with the Table as it was, whatever the path; so after a call
  that returned, a second call with the same asset name, any path and any files returns
  the Table of the first call.
\<close>

theorem fromCSV_duplicate_asset:
  "(containsAsset df asset \<longrightarrow>
      fromCSV L df asset path = ([''Asset: '' @ asset @ '' already exists''], Returns df))
   \<and> (fromCSV L df asset path = (out, Returns df') \<longrightarrow>
      containsAsset df' asset
      \<and> fromCSV L' df' asset path' = ([''Asset: '' @ asset @ '' already exists''], Returns df'))"
proof -
  have "containsAsset df' asset" if "fromCSV L df asset path = (out, Returns df')"
    using fromCSV_registers [OF that] by (simp add: containsAsset_def)
  then show ?thesis by (simp add: fromCSV_duplicate)
qed

theorem fromCSV_duplicate_asset_witness:
  "fromCSV sample_library DataFrame_init ''A'' ''Testing1.csv'' = ([], Returns sample_ingested)
   \<and> containsAsset sample_ingested ''A''
   \<and> fromCSV sample_library sample_ingested ''A'' ''Testing2.csv''
       = ([''Asset: A already exists''], Returns sample_ingested)"
  using sample_Testing1
    fromCSV_duplicate_asset [of sample_ingested "''A''" sample_library "''Testing2.csv''"
      "[]" sample_ingested sample_library "''Testing2.csv''"]
    fromCSV_duplicate_asset [of DataFrame_init "''A''" sample_library "''Testing1.csv''"
      "[]" sample_ingested sample_library "''Testing2.csv''"]
  by simp

section \<open>The file that cannot be opened\<close>

lemma fromCSV_never_throws: "snd (fromCSV L df asset path) \<noteq> Throws e"
  by (simp add: fromCSV_def noexcept_def split: prod.splits outcome.splits)

text \<open>
  C7. With an asset that is not registered and a file that cannot be opened, the body of
  \<open>fromCSV\<close> writes the diagnostic and throws \<open>std::exception\<close> before any member is
  written; the function is declared \<open>noexcept\<close>, so the call ends in \<open>std::terminate\<close>,
  and no call of \<open>fromCSV\<close> hands an exception to its caller.
\<close>

theorem fromCSV_unopenable_terminates:
  "(\<not> containsAsset df asset \<and> open_file L path = None \<longrightarrow>
      fromCSV_body L df asset path = ([''Error opening file: '' @ path], Throws Std_exception)
      \<and> fromCSV L df asset path = ([''Error opening file: '' @ path], Terminates))
   \<and> snd (fromCSV L df asset path) \<noteq> Throws e"
  by (simp add: fromCSV_never_throws)
    (simp add: fromCSV_def fromCSV_body_def containsAsset_def noexcept_def)

theorem fromCSV_unopenable_terminates_witness:
  "\<not> containsAsset (DataFrame_init :: int DataFrame) ''CSV2''
   \<and> open_file sample_library ''Missing.csv'' = None
   \<and> fromCSV_body sample_library DataFrame_init ''CSV2'' ''Missing.csv''
       = ([''Error opening file: Missing.csv''], Throws Std_exception)
   \<and> fromCSV sample_library DataFrame_init ''CSV2'' ''Missing.csv''
       = ([''Error opening file: Missing.csv''], Terminates)"
proof -
  have a: "\<not> containsAsset (DataFrame_init :: int DataFrame) ''CSV2''"
    by (simp add: containsAsset_def DataFrame_init_def)
  have b: "open_file sample_library ''Missing.csv'' = None"
    by (simp add: sample_library_def sample_files_def)
  from a b fromCSV_unopenable_terminates [of DataFrame_init "''CSV2''" sample_library "''Missing.csv''"]
  show ?thesis by simp
qed

section \<open>Rows shorter and longer than the header\<close>

lemma ingest_row_enough:
  assumes "tokenize L (erase_invalid row) = Some (dateString # rowData)"
    and "length features \<le> length rowData"
  shows "ingest_row L fmts asset features m row
         = Returns (om_assign (parse_date L fmts dateString not_a_date_time)
              (setData_calls
                 (case map_of m (parse_date L fmts dateString not_a_date_time) of
                    None \<Rightarrow> Data_init
                  | Some dataObj \<Rightarrow> dataObj)
                 (row_calls L asset features rowData))
              (find_or_create (parse_date L fmts dateString not_a_date_time) m))"
  using assms
  by (simp add: ingest_row_def Let_def find_or_create_finds insertData_enough)

lemma ingest_row_short:
  assumes "tokenize L (erase_invalid row) = Some (dateString # rowData)"
    and "length rowData < length features"
  shows "ingest_row L fmts asset features m row = Terminates"
  using assms
  by (simp add: ingest_row_def Let_def find_or_create_finds insertData_short)

lemma sample_Short:
  "fromCSV sample_library DataFrame_init ''A'' ''Short.csv'' = ([], Terminates)"
  by code_simp

text \<open>
  C3, as stated, fails: the sample file \<open>Short.csv\<close> has the header
  \<open>Date,Open,Close\<close> and the data row \<open>2020-01-01,10\<close>, one value token for two
  features, and its ingestion does not complete.
\<close>

theorem short_row_counterexample:
  "tokenize sample_library (erase_invalid ''Date,Open,Close'') = Some [''Date'', ''Open'', ''Close'']
   \<and> tokenize sample_library (erase_invalid ''2020-01-01,10'') = Some [''2020-01-01'', ''10'']
   \<and> fromCSV sample_library DataFrame_init ''A'' ''Short.csv'' = ([], Terminates)"
  by code_simp

text \<open>
  C3, amended. Pairing is bounded by the number of features only. For a data row with at
  least as many value tokens as the header has features, feature \<open>i\<close> is set from token
  \<open>i\<close>, the extra tokens are ignored (the row does what its first tokens alone would
  do), and the row is ingested. For a data row with fewer value tokens than features,
  \<open>insertData\<close> ends in \<open>std::terminate\<close> at the first missing token, and so does the
  ingestion of the row.
\<close>

theorem insertData_pairs_by_feature_index:
  "(length features \<le> length rowData \<longrightarrow>
      insertData L dataObj asset features rowData
        = Returns (setData_calls dataObj (row_calls L asset features rowData))
      \<and> insertData L dataObj asset features rowData
        = insertData L dataObj asset features (take (length features) rowData)
      \<and> (tokenize L (erase_invalid row) = Some (dateString # rowData) \<longrightarrow>
           (\<exists>m'. ingest_row L fmts asset features m row = Returns m')))
   \<and> (length rowData < length features \<longrightarrow>
      insertData L dataObj asset features rowData = Terminates
      \<and> (tokenize L (erase_invalid row) = Some (dateString # rowData) \<longrightarrow>
           ingest_row L fmts asset features m row = Terminates))"
proof -
  have a: "insertData L dataObj asset features rowData
        = insertData L dataObj asset features (take (length features) rowData)"
    if "length features \<le> length rowData"
  proof -
    have "length features \<le> length (take (length features) rowData)" using that by simp
    then show ?thesis
      using that row_calls_take [of L asset features rowData] by (simp add: insertData_enough)
  qed
  show ?thesis
    using a by (simp add: insertData_enough insertData_short ingest_row_enough ingest_row_short)
qed

theorem insertData_pairs_by_feature_index_witness:
  "insertData sample_library Data_init ''A'' [''Open''] [''10'', ''13'', ''14'']
     = Returns [(''A'', [(''Open'', 10)])]
   \<and> insertData sample_library Data_init ''A'' [''Open''] [''10'', ''13'', ''14'']
     = insertData sample_library Data_init ''A'' [''Open''] [''10'']
   \<and> insertData sample_library Data_init ''A'' [''Open'', ''Close''] [''10''] = Terminates
   \<and> ingest_row sample_library default_formats ''A'' [''Open''] [] ''2020-01-01,10,13,14''
     = Returns [(18262, [(''A'', [(''Open'', 10)])])]
   \<and> ingest_row sample_library default_formats ''A'' [''Open'', ''Close''] [] ''2020-01-01,10''
     = Terminates"
proof -
  have t1: "tokenize sample_library (erase_invalid ''2020-01-01,10,13,14'')
            = Some (''2020-01-01'' # [''10'', ''13'', ''14''])"
    by code_simp
  have t2: "tokenize sample_library (erase_invalid ''2020-01-01,10'')
            = Some (''2020-01-01'' # [''10''])"
    by code_simp
  have r: "ingest_row sample_library default_formats ''A'' [''Open''] [] ''2020-01-01,10,13,14''
     = Returns [(18262, [(''A'', [(''Open'', 10)])])]"
    by code_simp
  have c: "setData_calls Data_init (row_calls sample_library ''A'' [''Open''] [''10'', ''13'', ''14''])
           = [(''A'', [(''Open'', 10)])]"
    by code_simp
  from insertData_pairs_by_feature_index
    [of "[''Open'']" "[''10'', ''13'', ''14'']" sample_library Data_init "''A''"
      "''2020-01-01,10,13,14''" "''2020-01-01''" default_formats "[]"]
    insertData_pairs_by_feature_index
    [of "[''Open'', ''Close'']" "[''10'']" sample_library Data_init "''A''"
      "''2020-01-01,10''" "''2020-01-01''" default_formats "[]"]
    t1 t2 r c
  show ?thesis by auto
qed

section \<open>Timestamp formats\<close>









section \<open>Lookups of absent keys\<close>

lemma getData_absent:
  "\<not> holds d asset feature \<Longrightarrow> getData z d asset feature = z"
  by (auto simp: getData_def holds_def split: option.splits)

text \<open>
  C5. \<open>Data::getData\<close> returns the value-initialised \<open>T {}\<close> for an absent asset or
  feature, and so does \<open>DataFrame::getData\<close> when the timestamp is there. For an absent
  timestamp \<open>DataFrame::getData\<close> returns the default-initialised \<open>T t;\<close> instead, which
  for a scalar \<open>T\<close> is an indeterminate value and not the zero of \<open>T\<close>.
\<close>

theorem DataFrame_getData_missing_timestamp:
  "(map_of (data df) date = None \<longrightarrow>
      DataFrame_getData L df date asset feature = default_init L)
   \<and> (map_of (data df) date = Some dataObj \<and> \<not> holds dataObj asset feature \<longrightarrow>
      DataFrame_getData L df date asset feature = value_init L)
   \<and> (\<not> holds d asset feature \<longrightarrow> getData (value_init L) d asset feature = value_init L)"
  by (simp add: DataFrame_getData_def getData_absent)

theorem DataFrame_getData_missing_timestamp_witness:
  "map_of (data (DataFrame_init :: int DataFrame)) 18262 = None
   \<and> DataFrame_getData (sample_library\<lparr>default_init := 42\<rparr>) DataFrame_init 18262 ''A'' ''Open'' = 42
   \<and> value_init (sample_library\<lparr>default_init := 42\<rparr>) = 0
   \<and> map_of (data sample_ingested) 18262 = Some [(''A'', [(''Open'', 10), (''Close'', 13)])]
   \<and> \<not> holds [(''A'', [(''Open'', 10), (''Close'', 13 :: int)])] ''A'' ''High''
   \<and> DataFrame_getData (sample_library\<lparr>default_init := 42\<rparr>) sample_ingested 18262 ''A'' ''High'' = 0"
proof -
  have a: "map_of (data (DataFrame_init :: int DataFrame)) 18262 = None"
    by (simp add: DataFrame_init_def)
  have b: "map_of (data sample_ingested) 18262 = Some [(''A'', [(''Open'', 10), (''Close'', 13)])]"
    by (simp add: sample_ingested_def)
  have c: "\<not> holds [(''A'', [(''Open'', 10), (''Close'', 13 :: int)])] ''A'' ''High''"
    by (simp add: holds_def)
  have v: "value_init (sample_library\<lparr>default_init := 42\<rparr>) = 0"
    by (simp add: sample_library_def)
  from DataFrame_getData_missing_timestamp
    [where df = DataFrame_init and date = 18262
      and L = "sample_library\<lparr>default_init := 42\<rparr>" and asset = "''A''"
      and feature = "''Open''"]
    DataFrame_getData_missing_timestamp
    [where df = sample_ingested and date = 18262
      and L = "sample_library\<lparr>default_init := 42\<rparr>" and asset = "''A''"
      and feature = "''High''" and dataObj = "[(''A'', [(''Open'', 10), (''Close'', 13)])]"]
    a b c v
  show ?thesis by simp
qed

section \<open>Day of the week: the closed form against the calendar\<close>

lemma sdiv_nonneg: "0 \<le> (k::int) \<Longrightarrow> 0 < l \<Longrightarrow> k sdiv l = k div l"
  by (simp add: signed_divide_int_def sgn_if)

lemma smod_nonneg: "0 \<le> (k::int) \<Longrightarrow> 0 < l \<Longrightarrow> k smod l = k mod l"
  by (simp add: signed_modulo_int_def sgn_if)

lemma div_succ:
  fixes y c :: int
  assumes "0 < c"
  shows "(y + 1) div c = y div c + (if (y + 1) mod c = 0 then 1 else 0)"
proof -
  define q where "q = (y + 1) div c"
  define r where "r = (y + 1) mod c"
  have eq: "y + 1 = c * q + r" by (simp add: q_def r_def)
  have r0: "0 \<le> r" and r1: "r < c" using assms by (simp_all add: r_def)
  show ?thesis
  proof (cases "r = 0")
    case True
    have "y = c * (q - 1) + (c - 1)" using eq True by (simp add: algebra_simps)
    then have "y div c = q - 1" using assms by (intro int_div_pos_eq [where r = "c - 1"]) auto
    with True show ?thesis by (simp add: q_def r_def)
  next
    case False
    have "y = c * q + (r - 1)" using eq by simp
    then have "y div c = q" using r0 r1 False by (intro int_div_pos_eq [where r = "r - 1"]) auto
    with False show ?thesis by (simp add: q_def r_def)
  qed
qed

lemma mod_100_400: "(y::int) mod 400 = 0 \<Longrightarrow> y mod 100 = 0"
proof -
  assume "y mod 400 = 0"
  then have "400 dvd y" by (simp add: mod_eq_0_iff_dvd)
  moreover have "(100::int) dvd 400" by simp
  ultimately have "100 dvd y" by (rule dvd_trans [rotated])
  then show ?thesis by (simp add: mod_eq_0_iff_dvd)
qed

lemma mod_4_100: "(y::int) mod 100 = 0 \<Longrightarrow> y mod 4 = 0"
proof -
  assume "y mod 100 = 0"
  then have "100 dvd y" by (simp add: mod_eq_0_iff_dvd)
  moreover have "(4::int) dvd 100" by simp
  ultimately have "4 dvd y" by (rule dvd_trans [rotated])
  then show ?thesis by (simp add: mod_eq_0_iff_dvd)
qed

lemma leap_count_step:
  "leap_count (y + 1) = leap_count y + (if leap_year (y + 1) then 1 else 0)"
proof -
  have a: "(y + 1) div 4 = y div 4 + (if (y + 1) mod 4 = 0 then 1 else 0)"
    by (rule div_succ) simp
  have b: "(y + 1) div 100 = y div 100 + (if (y + 1) mod 100 = 0 then 1 else 0)"
    by (rule div_succ) simp
  have c: "(y + 1) div 400 = y div 400 + (if (y + 1) mod 400 = 0 then 1 else 0)"
    by (rule div_succ) simp
  show ?thesis
    unfolding leap_count_def leap_year_def a b c
    using mod_100_400 [of "y + 1"] mod_4_100 [of "y + 1"]
    by (cases "(y + 1) mod 4 = 0"; cases "(y + 1) mod 100 = 0"; cases "(y + 1) mod 400 = 0") simp_all
qed


lemma days_of_years_closed:
  "days_of_years n = 365 * int n + leap_count (1399 + int n) - leap_count 1399"
proof (induction n)
  case 0
  then show ?case by simp
next
  case (Suc n)
  have "leap_count (1399 + int n + 1) = leap_count (1399 + int n)
        + (if leap_year (1399 + int n + 1) then 1 else 0)"
    by (rule leap_count_step)
  moreover have "1399 + int n + 1 = 1400 + int n" by simp
  moreover have "1399 + int (Suc n) = 1400 + int n" by simp
  ultimately have "leap_count (1399 + int (Suc n)) = leap_count (1399 + int n)
        + (if leap_year (1400 + int n) then 1 else 0)" by simp
  with Suc show ?case by (simp add: year_length_def)
qed

lemma leap_count_nonneg: "0 \<le> y \<Longrightarrow> 0 \<le> leap_count y"
proof -
  assume y: "0 \<le> y"
  have "y div 100 \<le> y div 4" using y by (intro zdiv_mono2) simp_all
  moreover have "0 \<le> y div 400" using y by simp
  ultimately show ?thesis by (simp add: leap_count_def)
qed

lemma t_nth: "t ! 0 = 0" "t ! Suc 0 = 3" "t ! 1 = 3" "t ! 2 = 2" "t ! 3 = 5" "t ! 4 = 0" "t ! 5 = 3"
  "t ! 6 = 5" "t ! 7 = 1" "t ! 8 = 4" "t ! 9 = 6" "t ! 10 = 2" "t ! 11 = 4"
  by (simp_all add: t_def)

lemma days_of_months_vals:
  "days_of_months y 0 = 0"
  "days_of_months y (Suc 0) = 31"
  "days_of_months y 1 = 31"
  "days_of_months y 2 = 59 + (if leap_year y then 1 else 0)"
  "days_of_months y 3 = 90 + (if leap_year y then 1 else 0)"
  "days_of_months y 4 = 120 + (if leap_year y then 1 else 0)"
  "days_of_months y 5 = 151 + (if leap_year y then 1 else 0)"
  "days_of_months y 6 = 181 + (if leap_year y then 1 else 0)"
  "days_of_months y 7 = 212 + (if leap_year y then 1 else 0)"
  "days_of_months y 8 = 243 + (if leap_year y then 1 else 0)"
  "days_of_months y 9 = 273 + (if leap_year y then 1 else 0)"
  "days_of_months y 10 = 304 + (if leap_year y then 1 else 0)"
  "days_of_months y 11 = 334 + (if leap_year y then 1 else 0)"
  by (simp_all add: eval_nat_numeral month_length_def)



lemma mod7_eq: "a = b + 7 * k \<Longrightarrow> a mod 7 = b mod (7::int)"
  by simp

lemma closed_form_nonneg:
  assumes "0 \<le> y" "0 \<le> tv" "0 \<le> d"
  shows "(y + y sdiv 4 - y sdiv 100 + y sdiv 400 + tv + d) smod 7
         = (y + leap_count y + tv + d) mod 7"
proof -
  have "0 \<le> leap_count y" using assms(1) by (rule leap_count_nonneg)
  then have "0 \<le> y + leap_count y + tv + d" using assms by simp
  then have s: "(y + leap_count y + tv + d) smod 7 = (y + leap_count y + tv + d) mod 7"
    by (intro smod_nonneg) simp_all
  have e: "y + y sdiv 4 - y sdiv 100 + y sdiv 400 = y + leap_count y"
    using assms(1) by (simp add: sdiv_nonneg leap_count_def)
  show ?thesis unfolding e by (rule s)
qed

lemma getDayOfWeek_closed:
  assumes "1400 \<le> year date" "1 \<le> month date" "month date \<le> 12" "0 \<le> day date"
  shows "getDayOfWeek date
         = (year date - (if month date < 3 then 1 else 0)
            + leap_count (year date - (if month date < 3 then 1 else 0))
            + t ! nat (month date - 1) + day date) mod 7"
proof -
  define y where "y = year date - (if month date < 3 then 1 else 0)"
  have y: "0 \<le> y" using assms(1) by (simp add: y_def)
  have "nat (month date - 1) < length t" using assms(2,3) by (simp add: t_def)
  then have "t ! nat (month date - 1) \<in> set t" by (rule nth_mem)
  then have tv: "0 \<le> t ! nat (month date - 1)" by (auto simp: t_def)
  have "getDayOfWeek date
        = (y + y sdiv 4 - y sdiv 100 + y sdiv 400 + t ! nat (month date - 1) + day date) smod 7"
    by (simp add: getDayOfWeek_def Let_def y_def)
  also have "\<dots> = (y + leap_count y + t ! nat (month date - 1) + day date) mod 7"
    using y tv assms(4) by (rule closed_form_nonneg)
  finally show ?thesis by (simp add: y_def)
qed

lemma month_cases:
  assumes "1 \<le> (m::int)" "m \<le> 12"
  shows "m \<in> {1, 2, 3, 4, 5, 6, 7, 8, 9, 10, 11, 12}"
  using assms by (simp, arith)

lemma day_number_closed:
  assumes "1400 \<le> year date"
  shows "day_number date
         = 365 * (year date - 1400) + leap_count (year date - 1) - leap_count 1399
           + days_of_months (year date) (nat (month date - 1)) + day date"
proof -
  have "int (nat (year date - 1400)) = year date - 1400" using assms by simp
  moreover have "1399 + (year date - 1400) = year date - 1" by simp
  ultimately show ?thesis
    using days_of_years_closed [of "nat (year date - 1400)"] by (simp add: day_number_def)
qed

lemma day_of_week_closed:
  assumes "1400 \<le> year date"
  shows "day_of_week date
         = (year date - 1 + leap_count (year date - 1)
            + days_of_months (year date) (nat (month date - 1)) + day date) mod 7"
proof -
  have a: "day_number \<lparr>year = 2000, month = 1, day = 1\<rparr> = 219485 - leap_count 1399"
    by (simp add: day_number_closed leap_count_def)
  define l where "l = leap_count (year date - 1)"
  define c where "c = days_of_months (year date) (nat (month date - 1))"
  have "day_of_week date = (6 + (365 * (year date - 1400) + l + c + day date - 219485)) mod 7"
    by (simp add: day_of_week_def a day_number_closed [OF assms] l_def c_def)
  also have "\<dots> = (year date - 1 + l + c + day date) mod 7"
    by (rule mod7_eq [where k = "52 * year date - 104354"]) simp
  finally show ?thesis by (simp add: l_def c_def)
qed

lemma getDayOfWeek_refines:
  assumes "valid_date date"
  shows "getDayOfWeek date = day_of_week date"
proof -
  from assms have y: "1400 \<le> year date" and d: "0 \<le> day date"
    and m: "1 \<le> month date" "month date \<le> 12"
    by (simp_all add: valid_date_def)
  define l where "l = leap_count (year date - 1)"
  define b :: int where "b = (if leap_year (year date) then 1 else 0)"
  have ly: "leap_count (year date) = l + b"
    using leap_count_step [of "year date - 1"] by (simp add: l_def b_def)
  note g = getDayOfWeek_closed [OF y m d]
  note w = day_of_week_closed [OF y]
  from m consider "month date = 1" | "month date = 2" | "month date = 3" | "month date = 4"
    | "month date = 5" | "month date = 6" | "month date = 7" | "month date = 8"
    | "month date = 9" | "month date = 10" | "month date = 11" | "month date = 12"
    using month_cases [OF m] by auto
  then show ?thesis
  proof cases
    case 1
    have "getDayOfWeek date = (year date - 1 + l + 0 + day date) mod 7"
      using g 1 by (simp add: t_nth ly l_def)
    also have "\<dots> = day_of_week date"
      using w 1 by (simp add: days_of_months_vals month_length_def l_def b_def)
    finally show ?thesis .
  next
    case 2
    have "getDayOfWeek date = (year date - 1 + l + 3 + day date) mod 7"
      using g 2 by (simp add: t_nth ly l_def)
    also have "\<dots> = (year date - 1 + l + 31 + day date) mod 7"
      by (rule mod7_eq [where k = "- 4"]) simp
    also have "\<dots> = day_of_week date"
      using w 2 by (simp add: days_of_months_vals month_length_def l_def b_def)
    finally show ?thesis .
  next
    case 3
    have "getDayOfWeek date = (year date + (l + b) + 2 + day date) mod 7"
      using g 3 by (simp add: t_nth ly l_def)
    also have "\<dots> = (year date - 1 + l + (59 + b) + day date) mod 7"
      by (rule mod7_eq [where k = "- 8"]) simp
    also have "\<dots> = day_of_week date"
      using w 3 by (simp add: days_of_months_vals month_length_def l_def b_def)
    finally show ?thesis .
  next
    case 4
    have "getDayOfWeek date = (year date + (l + b) + 5 + day date) mod 7"
      using g 4 by (simp add: t_nth ly l_def)
    also have "\<dots> = (year date - 1 + l + (90 + b) + day date) mod 7"
      by (rule mod7_eq [where k = "- 12"]) simp
    also have "\<dots> = day_of_week date"
      using w 4 by (simp add: days_of_months_vals month_length_def l_def b_def)
    finally show ?thesis .
  next
    case 5
    have "getDayOfWeek date = (year date + (l + b) + 0 + day date) mod 7"
      using g 5 by (simp add: t_nth ly l_def)
    also have "\<dots> = (year date - 1 + l + (120 + b) + day date) mod 7"
      by (rule mod7_eq [where k = "- 17"]) simp
    also have "\<dots> = day_of_week date"
      using w 5 by (simp add: days_of_months_vals month_length_def l_def b_def)
    finally show ?thesis .
  next
    case 6
    have "getDayOfWeek date = (year date + (l + b) + 3 + day date) mod 7"
      using g 6 by (simp add: t_nth ly l_def)
    also have "\<dots> = (year date - 1 + l + (151 + b) + day date) mod 7"
      by (rule mod7_eq [where k = "- 21"]) simp
    also have "\<dots> = day_of_week date"
      using w 6 by (simp add: days_of_months_vals month_length_def l_def b_def)
    finally show ?thesis .
  next
    case 7
    have "getDayOfWeek date = (year date + (l + b) + 5 + day date) mod 7"
      using g 7 by (simp add: t_nth ly l_def)
    also have "\<dots> = (year date - 1 + l + (181 + b) + day date) mod 7"
      by (rule mod7_eq [where k = "- 25"]) simp
    also have "\<dots> = day_of_week date"
      using w 7 by (simp add: days_of_months_vals month_length_def l_def b_def)
    finally show ?thesis .
  next
    case 8
    have "getDayOfWeek date = (year date + (l + b) + 1 + day date) mod 7"
      using g 8 by (simp add: t_nth ly l_def)
    also have "\<dots> = (year date - 1 + l + (212 + b) + day date) mod 7"
      by (rule mod7_eq [where k = "- 30"]) simp
    also have "\<dots> = day_of_week date"
      using w 8 by (simp add: days_of_months_vals month_length_def l_def b_def)
    finally show ?thesis .
  next
    case 9
    have "getDayOfWeek date = (year date + (l + b) + 4 + day date) mod 7"
      using g 9 by (simp add: t_nth ly l_def)
    also have "\<dots> = (year date - 1 + l + (243 + b) + day date) mod 7"
      by (rule mod7_eq [where k = "- 34"]) simp
    also have "\<dots> = day_of_week date"
      using w 9 by (simp add: days_of_months_vals month_length_def l_def b_def)
    finally show ?thesis .
  next
    case 10
    have "getDayOfWeek date = (year date + (l + b) + 6 + day date) mod 7"
      using g 10 by (simp add: t_nth ly l_def)
    also have "\<dots> = (year date - 1 + l + (273 + b) + day date) mod 7"
      by (rule mod7_eq [where k = "- 38"]) simp
    also have "\<dots> = day_of_week date"
      using w 10 by (simp add: days_of_months_vals month_length_def l_def b_def)
    finally show ?thesis .
  next
    case 11
    have "getDayOfWeek date = (year date + (l + b) + 2 + day date) mod 7"
      using g 11 by (simp add: t_nth ly l_def)
    also have "\<dots> = (year date - 1 + l + (304 + b) + day date) mod 7"
      by (rule mod7_eq [where k = "- 43"]) simp
    also have "\<dots> = day_of_week date"
      using w 11 by (simp add: days_of_months_vals month_length_def l_def b_def)
    finally show ?thesis .
  next
    case 12
    have "getDayOfWeek date = (year date + (l + b) + 4 + day date) mod 7"
      using g 12 by (simp add: t_nth ly l_def)
    also have "\<dots> = (year date - 1 + l + (334 + b) + day date) mod 7"
      by (rule mod7_eq [where k = "- 47"]) simp
    also have "\<dots> = day_of_week date"
      using w 12 by (simp add: days_of_months_vals month_length_def l_def b_def)
    finally show ?thesis .
  qed
qed

text \<open>
  C9. For every valid date, \<open>getDayOfWeek\<close> is the day of the week of the calendar,
  Sunday as 0 to Saturday as 6, and so lies between 0 and 6; it is 3 (Wednesday) for
  2020-01-01 and 6 (Saturday) for 2000-01-01.
\<close>

theorem getDayOfWeek_is_day_of_week:
  assumes "valid_date date"
  shows "getDayOfWeek date = day_of_week date
       \<and> 0 \<le> getDayOfWeek date \<and> getDayOfWeek date \<le> 6
       \<and> getDayOfWeek \<lparr>year = 2020, month = 1, day = 1\<rparr> = 3
       \<and> getDayOfWeek \<lparr>year = 2000, month = 1, day = 1\<rparr> = 6"
proof -
  have eq: "getDayOfWeek date = day_of_week date"
    using assms by (rule getDayOfWeek_refines)
  have "0 \<le> day_of_week date \<and> day_of_week date \<le> 6"
    by (simp add: day_of_week_def)
  moreover have "getDayOfWeek \<lparr>year = 2020, month = 1, day = 1\<rparr> = 3"
    by (simp add: getDayOfWeek_def t_def signed_divide_int_def signed_modulo_int_def)
  moreover have "getDayOfWeek \<lparr>year = 2000, month = 1, day = 1\<rparr> = 6"
    by (simp add: getDayOfWeek_def t_def signed_divide_int_def signed_modulo_int_def)
  ultimately show ?thesis using eq by simp
qed

theorem getDayOfWeek_is_day_of_week_witness:
  "valid_date \<lparr>year = 2020, month = 2, day = 29\<rparr>
   \<and> getDayOfWeek \<lparr>year = 2020, month = 2, day = 29\<rparr>
       = day_of_week \<lparr>year = 2020, month = 2, day = 29\<rparr>
   \<and> getDayOfWeek \<lparr>year = 2020, month = 2, day = 29\<rparr> = 6"
proof -
  have v: "valid_date \<lparr>year = 2020, month = 2, day = 29\<rparr>"
    by (simp add: valid_date_def month_length_def leap_year_def)
  have "getDayOfWeek \<lparr>year = 2020, month = 2, day = 29\<rparr> = 6"
    by (simp add: getDayOfWeek_def t_def signed_divide_int_def signed_modulo_int_def)
  with v getDayOfWeek_is_day_of_week [OF v] show ?thesis by simp
qed

end
